theory Spec2Isabelle
  imports Main
begin

section \<open>Text: Python strings as lists of code points\<close>

text \<open>
  A Python \<^verbatim>\<open>str\<close> is a sequence of Unicode code points; \<^verbatim>\<open>len\<close>, slicing,
  \<^verbatim>\<open>startswith\<close> and the regular expression engine all count code points. A character is
  therefore modelled by its code point and a string by a list of them.
\<close>

type_synonym uchar = nat
type_synonym ustr = "uchar list"

text \<open>An ASCII literal of the source, as code points.\<close>

definition asc :: "string \<Rightarrow> ustr" where
  "asc s = map of_char s"

abbreviation (input) NL :: uchar where "NL \<equiv> 10"
abbreviation (input) SPACE :: uchar where "SPACE \<equiv> 32"

text \<open>The glyphs of the chapter marker: U+7B2C (di, "number") and U+56DE (hui, "chapter").\<close>

abbreviation (input) DI :: uchar where "DI \<equiv> 31532"
abbreviation (input) HUI :: uchar where "HUI \<equiv> 22238"

text \<open>The numeral glyphs: one .. nine, ten, hundred, zero.\<close>

abbreviation (input) YI :: uchar where "YI \<equiv> 19968"
abbreviation (input) ER :: uchar where "ER \<equiv> 20108"
abbreviation (input) SAN :: uchar where "SAN \<equiv> 19977"
abbreviation (input) SI :: uchar where "SI \<equiv> 22235"
abbreviation (input) WU :: uchar where "WU \<equiv> 20116"
abbreviation (input) LIU :: uchar where "LIU \<equiv> 20845"
abbreviation (input) QI :: uchar where "QI \<equiv> 19971"
abbreviation (input) BA :: uchar where "BA \<equiv> 20843"
abbreviation (input) JIU :: uchar where "JIU \<equiv> 20061"
abbreviation (input) SHI :: uchar where "SHI \<equiv> 21313"
abbreviation (input) BAI :: uchar where "BAI \<equiv> 30334"
abbreviation (input) LING :: uchar where "LING \<equiv> 38646"

text \<open>
  Whitespace as \<^verbatim>\<open>str.strip()\<close>, \<^verbatim>\<open>str.isspace()\<close> and the pattern \<^verbatim>\<open>\s\<close> of a
  \<^verbatim>\<open>str\<close> pattern see it: the code points U+0009..U+000D, U+001C..U+0020, U+0085, U+00A0,
  U+1680, U+2000..U+200A, U+2028, U+2029, U+202F, U+205F and U+3000.
\<close>

definition isspace :: "uchar \<Rightarrow> bool" where
  "isspace c \<longleftrightarrow>
     (9 \<le> c \<and> c \<le> 13) \<or> (28 \<le> c \<and> c \<le> 32) \<or> c = 133 \<or> c = 160 \<or> c = 5760 \<or>
     (8192 \<le> c \<and> c \<le> 8202) \<or> c = 8232 \<or> c = 8233 \<or> c = 8239 \<or> c = 8287 \<or> c = 12288"

text \<open>\<^verbatim>\<open>s.strip()\<close>: whitespace removed at both ends.\<close>

definition lstrip :: "ustr \<Rightarrow> ustr" where
  "lstrip s = dropWhile isspace s"

definition rstrip :: "ustr \<Rightarrow> ustr" where
  "rstrip s = rev (dropWhile isspace (rev s))"

definition strip :: "ustr \<Rightarrow> ustr" where
  "strip s = rstrip (lstrip s)"

text \<open>
  \<^verbatim>\<open>s.split('\n')\<close>: the pieces between line feeds; there is always at least one piece
  (the empty string gives one empty piece).
\<close>

fun split_nl :: "ustr \<Rightarrow> ustr list" where
  "split_nl [] = [[]]"
| "split_nl (c # cs) =
     (if c = NL then [] # split_nl cs
      else (case split_nl cs of [] \<Rightarrow> [[c]] | l # ls \<Rightarrow> (c # l) # ls))"

text \<open>\<^verbatim>\<open>s.startswith(p)\<close>.\<close>

definition startswith :: "ustr \<Rightarrow> ustr \<Rightarrow> bool" where
  "startswith s p \<longleftrightarrow> take (length p) s = p"

section \<open>The numeral table and the title parser\<close>

text \<open>
  The dictionary \<^verbatim>\<open>chinese_nums\<close> of \<^verbatim>\<open>parse_chapter_title\<close>, in the order of the source.
  Its keys are pairwise different, so the association list read by \<open>map_of\<close> is the dictionary.
\<close>

definition chinese_nums :: "(ustr \<times> int) list" where
  "chinese_nums =
    [([YI], 1), ([ER], 2), ([SAN], 3), ([SI], 4), ([WU], 5),
     ([LIU], 6), ([QI], 7), ([BA], 8), ([JIU], 9), ([SHI], 10),
     ([SHI, YI], 11), ([SHI, ER], 12), ([SHI, SAN], 13), ([SHI, SI], 14), ([SHI, WU], 15),
     ([SHI, LIU], 16), ([SHI, QI], 17), ([SHI, BA], 18), ([SHI, JIU], 19), ([ER, SHI], 20),
     ([ER, SHI, YI], 21), ([ER, SHI, ER], 22), ([ER, SHI, SAN], 23), ([ER, SHI, SI], 24),
     ([ER, SHI, WU], 25),
     ([BAI], 100), ([LING], 0)]"

text \<open>\<^verbatim>\<open>chinese_nums.get(k, 0)\<close>.\<close>

definition nums_get0 :: "ustr \<Rightarrow> int" where
  "nums_get0 k = (case map_of chinese_nums k of None \<Rightarrow> 0 | Some v \<Rightarrow> v)"

text \<open>
  The fallback loop of the source (lines 59-62), with the running total as accumulator:
  \<^verbatim>\<open>for char in chinese_num: if char in chinese_nums: chapter_num += chinese_nums[char]\<close>.
\<close>

fun sum_glyphs :: "ustr \<Rightarrow> int \<Rightarrow> int" where
  "sum_glyphs [] chapter_num = chapter_num"
| "sum_glyphs (char # rest) chapter_num =
     (case map_of chinese_nums [char] of
        Some v \<Rightarrow> sum_glyphs rest (chapter_num + v)
      | None \<Rightarrow> sum_glyphs rest chapter_num)"

text \<open>The conversion of the numeral to an integer: the \<^verbatim>\<open>if/elif\<close> chain of lines 45-62.\<close>

definition convert_numeral :: "ustr \<Rightarrow> int" where
  "convert_numeral chinese_num =
     (case map_of chinese_nums chinese_num of
        Some v \<Rightarrow> v
      | None \<Rightarrow>
          if startswith chinese_num [ER, SHI] then
            (if length chinese_num = 2 then 20
             else 20 + nums_get0 (drop 2 chinese_num))
          else if startswith chinese_num [SHI] then
            (if length chinese_num = 1 then 10
             else 10 + nums_get0 (drop 1 chinese_num))
          else sum_glyphs chinese_num 0)"

text \<open>The character class of the pattern: the twelve numeral glyphs.\<close>

definition numeral_glyph :: "uchar \<Rightarrow> bool" where
  "numeral_glyph c \<longleftrightarrow>
     c \<in> set [YI, ER, SAN, SI, WU, LIU, QI, BA, JIU, SHI, BAI, LING]"

text \<open>
  The tail \<^verbatim>\<open>\s*(.+)\<close> of the pattern, matched at the start of the given text; the result is
  group 2. The star is greedy and backtracks: it takes a whitespace character when the rest
  can still be matched after it, and otherwise leaves it to the group. The dot takes any
  character but the line feed, and the greedy plus takes all of them up to the first line feed.
\<close>

fun match_tail :: "ustr \<Rightarrow> ustr option" where
  "match_tail [] = None"
| "match_tail (c # cs) =
     (if isspace c then
        (case match_tail cs of
           Some g \<Rightarrow> Some g
         | None \<Rightarrow> if c \<noteq> NL then Some (takeWhile (\<lambda>x. x \<noteq> NL) (c # cs)) else None)
      else Some (takeWhile (\<lambda>x. x \<noteq> NL) (c # cs)))"

text \<open>
  \<^verbatim>\<open>re.match\<close> of the whole pattern, anchored at the start of the text and not at its end.
  The marker glyph U+56DE is not a numeral glyph, so group 1 can only be the longest run of
  numeral glyphs after U+7B2C. The result is the pair of group 1 and group 2.
\<close>

definition title_match :: "ustr \<Rightarrow> (ustr \<times> ustr) option" where
  "title_match s =
     (case s of
        [] \<Rightarrow> None
      | c # t \<Rightarrow>
          if c \<noteq> DI then None
          else (let num = takeWhile numeral_glyph t in
                if num = [] then None
                else (case dropWhile numeral_glyph t of
                        [] \<Rightarrow> None
                      | h # rest \<Rightarrow>
                          if h \<noteq> HUI then None
                          else (case match_tail rest of
                                  None \<Rightarrow> None
                                | Some g \<Rightarrow> Some (num, g)))))"

definition parse_chapter_title :: "ustr \<Rightarrow> int \<times> ustr" where
  "parse_chapter_title first_line =
     (case title_match (strip first_line) of
        Some (chinese_num, g2) \<Rightarrow> (convert_numeral chinese_num, strip g2)
      | None \<Rightarrow> (0, strip first_line))"

section \<open>Integers from text: \<^verbatim>\<open>int(s)\<close> and \<^verbatim>\<open>str.isdigit()\<close>\<close>

text \<open>
  The code points of general category Nd come in runs of ten, zero first; the table holds the
  zero of each run (Unicode 14.0, the table of CPython 3.11).
\<close>

definition nd_zeros :: "uchar list" where
  "nd_zeros =
    [48, 1632, 1776, 1984, 2406, 2534, 2662, 2790, 2918, 3046, 3174, 3302, 3430, 3558, 3664,
     3792, 3872, 4160, 4240, 6112, 6160, 6470, 6608, 6784, 6800, 6992, 7088, 7232, 7248, 42528,
     43216, 43264, 43472, 43504, 43600, 44016, 65296, 66720, 68912, 69734, 69872, 69942, 70096,
     70384, 70736, 70864, 71248, 71360, 71472, 71904, 72016, 72784, 73040, 73120, 92768, 92864,
     93008, 120782, 120792, 120802, 120812, 120822, 123200, 123632, 125264, 130032]"

definition unicode_decimal :: "uchar \<Rightarrow> nat option" where
  "unicode_decimal c =
     (case filter (\<lambda>z. z \<le> c \<and> c < z + 10) nd_zeros of
        [] \<Rightarrow> None
      | z # _ \<Rightarrow> Some (c - z))"

text \<open>
  The digits that are not decimal (superscripts, subscripts, circled digits and the like), as
  closed ranges. \<^verbatim>\<open>str.isdigit()\<close> accepts them, \<^verbatim>\<open>int()\<close> does not.
\<close>

definition other_digit_ranges :: "(uchar \<times> uchar) list" where
  "other_digit_ranges =
    [(178, 179), (185, 185), (4969, 4977), (6618, 6618), (8304, 8304), (8308, 8313),
     (8320, 8329), (9312, 9320), (9332, 9340), (9352, 9360), (9450, 9450), (9461, 9469),
     (9471, 9471), (10102, 10110), (10112, 10120), (10122, 10130), (68160, 68163),
     (69216, 69224), (69714, 69722), (127232, 127242)]"

definition isdigit_char :: "uchar \<Rightarrow> bool" where
  "isdigit_char c \<longleftrightarrow>
     unicode_decimal c \<noteq> None \<or> list_ex (\<lambda>(lo, hi). lo \<le> c \<and> c \<le> hi) other_digit_ranges"

text \<open>\<^verbatim>\<open>s.isdigit()\<close>: at least one character, and all of them digits.\<close>

definition isdigit :: "ustr \<Rightarrow> bool" where
  "isdigit s \<longleftrightarrow> s \<noteq> [] \<and> list_all isdigit_char s"

text \<open>
  \<^verbatim>\<open>int(s)\<close> first brings the text to ASCII: an ASCII character stays, any other whitespace
  becomes a space, any other decimal digit becomes its ASCII digit, and any other character
  makes the literal invalid.
\<close>

definition to_ascii_char :: "uchar \<Rightarrow> uchar option" where
  "to_ascii_char c =
     (if c < 128 then Some c
      else if isspace c then Some SPACE
      else map_option (\<lambda>d. 48 + d) (unicode_decimal c))"

definition to_ascii :: "ustr \<Rightarrow> ustr option" where
  "to_ascii s = those (map to_ascii_char s)"

text \<open>Whitespace of the C locale, which is what the ASCII text is trimmed by.\<close>

definition c_isspace :: "uchar \<Rightarrow> bool" where
  "c_isspace c \<longleftrightarrow> (9 \<le> c \<and> c \<le> 13) \<or> c = SPACE"

definition ascii_digit :: "uchar \<Rightarrow> bool" where
  "ascii_digit c \<longleftrightarrow> 48 \<le> c \<and> c \<le> 57"

abbreviation (input) UNDERSCORE :: uchar where "UNDERSCORE \<equiv> 95"

text \<open>
  The scan over digits and underscores: \<open>prev\<close> is the character before, the integer is the
  value read so far. Two underscores in a row and an underscore at the end are errors; the
  scan stops at the first character that is neither, and returns the rest.
\<close>

fun scan_digits :: "uchar \<Rightarrow> int \<Rightarrow> ustr \<Rightarrow> (int \<times> ustr) option" where
  "scan_digits prev acc [] = (if prev = UNDERSCORE then None else Some (acc, []))"
| "scan_digits prev acc (c # cs) =
     (if c = UNDERSCORE then
        (if prev = UNDERSCORE then None else scan_digits c acc cs)
      else if ascii_digit c then scan_digits c (10 * acc + int (c - 48)) cs
      else if prev = UNDERSCORE then None
      else Some (acc, c # cs))"

text \<open>
  The literal in base ten: whitespace, an optional sign, digits with single underscores
  between them, whitespace, and nothing else. An underscore or a non-digit right after the
  sign is an error, as is the empty text.
\<close>

definition long_from_string :: "ustr \<Rightarrow> int option" where
  "long_from_string a =
     (let b = dropWhile c_isspace a;
          negative = (b \<noteq> [] \<and> hd b = 45);
          d = (if b \<noteq> [] \<and> (hd b = 43 \<or> hd b = 45) then tl b else b)
      in if d = [] \<or> \<not> ascii_digit (hd d) then None
         else (case scan_digits 0 0 d of
                 None \<Rightarrow> None
               | Some (v, rest) \<Rightarrow>
                   if list_all c_isspace rest then Some (if negative then - v else v)
                   else None))"

text \<open>
  \<^verbatim>\<open>int(s)\<close>; \<open>None\<close> is the ValueError. (The interpreter also refuses literals of more
  than 4300 digits; the texts converted here are file names, which are shorter.)
\<close>

definition py_int :: "ustr \<Rightarrow> int option" where
  "py_int s = (case to_ascii s of None \<Rightarrow> None | Some a \<Rightarrow> long_from_string a)"

section \<open>The chapter parser\<close>

datatype error = ValueError ustr | IndexError

record para =
  content :: "ustr list"

record chapter_data =
  id' :: int
  title :: ustr
  titleText :: ustr
  paragraphs :: "para list"

text \<open>
  A source file as the parser sees it: the base name of its path (\<^verbatim>\<open>file_path.stem\<close>) and
  the text that \<^verbatim>\<open>f.read()\<close> returns.
\<close>

record txt_file =
  stem :: ustr
  contents :: ustr

text \<open>
  The loop of lines 101-109, with its two variables \<^verbatim>\<open>paragraphs\<close> and
  \<^verbatim>\<open>current_paragraph\<close> as state.
\<close>

fun paragraph_loop :: "ustr list \<Rightarrow> para list \<Rightarrow> ustr list \<Rightarrow> para list \<times> ustr list" where
  "paragraph_loop [] paras current = (paras, current)"
| "paragraph_loop (line # rest) paras current =
     (let stripped = strip line in
      if stripped \<noteq> [] then paragraph_loop rest paras (current @ [stripped])
      else if current \<noteq> [] then
        paragraph_loop rest (paras @ [\<lparr>content = [concat current]\<rparr>]) []
      else paragraph_loop rest paras current)"

text \<open>The loop and the flush of the last paragraph after it (lines 98-114).\<close>

definition parse_paragraphs :: "ustr list \<Rightarrow> para list" where
  "parse_paragraphs lines =
     (case paragraph_loop lines [] [] of
        (paras, current) \<Rightarrow>
          if current \<noteq> [] then paras @ [\<lparr>content = [concat current]\<rparr>] else paras)"

definition parse_txt_file :: "txt_file \<Rightarrow> error + chapter_data" where
  "parse_txt_file f =
     (case split_nl (strip (contents f)) of
        [] \<Rightarrow> Inl IndexError
      | line0 # rest \<Rightarrow>
          (let first_line = strip line0 in
           case parse_chapter_title first_line of
             (chapter_num, title_text) \<Rightarrow>
               (case (if chapter_num = 0 then py_int (stem f) else Some chapter_num) of
                  None \<Rightarrow> Inl (ValueError (stem f))
                | Some n \<Rightarrow>
                    Inr \<lparr>id' = n, title = first_line, titleText = title_text,
                         paragraphs = parse_paragraphs rest\<rparr>)))"

section \<open>The driver\<close>

text \<open>The decimal digits of a natural number, and \<^verbatim>\<open>int.__repr__\<close>.\<close>

fun digits_of :: "nat \<Rightarrow> ustr" where
  "digits_of n = (if n < 10 then [48 + n] else digits_of (n div 10) @ [48 + n mod 10])"

declare digits_of.simps [simp del]

definition repr_int :: "int \<Rightarrow> ustr" where
  "repr_int n = (if n < 0 then [45] else []) @ digits_of (nat \<bar>n\<bar>)"

text \<open>
  The format \<^verbatim>\<open>{chapter_num:03d}\<close>: zeros between the sign and the digits up to a width
  of three characters, the sign counted.
\<close>

definition format_03d :: "int \<Rightarrow> ustr" where
  "format_03d n =
     (let sign = (if n < 0 then [45] else []);
          ds = digits_of (nat \<bar>n\<bar>)
      in sign @ replicate (3 - length sign - length ds) 48 @ ds)"

definition output_name :: "int \<Rightarrow> ustr" where
  "output_name chapter_num = asc ''chapter-'' @ format_03d chapter_num @ asc ''.json''"

text \<open>
  \<^verbatim>\<open>json.dump(chapter_data, f, ensure_ascii=False, indent=2)\<close>: the text written. With
  \<^verbatim>\<open>ensure_ascii=False\<close> only the quote, the backslash and the control characters below
  U+0020 are escaped.
\<close>

definition hex_digit :: "nat \<Rightarrow> uchar" where
  "hex_digit d = (if d < 10 then 48 + d else 87 + d)"

definition json_escape :: "uchar \<Rightarrow> ustr" where
  "json_escape c =
     (if c = 34 then [92, 34]
      else if c = 92 then [92, 92]
      else if c = 10 then [92, 110]
      else if c = 13 then [92, 114]
      else if c = 9 then [92, 116]
      else if c = 8 then [92, 98]
      else if c = 12 then [92, 102]
      else if c < 32 then [92, 117, 48, 48, hex_digit (c div 16), hex_digit (c mod 16)]
      else [c])"

definition json_string :: "ustr \<Rightarrow> ustr" where
  "json_string s = [34] @ concat (map json_escape s) @ [34]"

text \<open>A line feed and the indentation of nesting level \<open>k\<close>.\<close>

definition newline_indent :: "nat \<Rightarrow> ustr" where
  "newline_indent k = NL # replicate (2 * k) SPACE"

fun join_items :: "ustr \<Rightarrow> ustr list \<Rightarrow> ustr" where
  "join_items sep [] = []"
| "join_items sep [x] = x"
| "join_items sep (x # y # ys) = x @ sep @ join_items sep (y # ys)"

text \<open>A list whose brackets stand at nesting level \<open>k\<close>; the empty list is \<^verbatim>\<open>[]\<close>.\<close>

definition json_list :: "nat \<Rightarrow> ustr list \<Rightarrow> ustr" where
  "json_list k items =
     (if items = [] then asc ''[]''
      else asc ''['' @ newline_indent (Suc k) @
           join_items (asc '','' @ newline_indent (Suc k)) items @
           newline_indent k @ asc '']'')"

definition json_para :: "para \<Rightarrow> ustr" where
  "json_para p =
     asc ''{'' @ newline_indent 3 @ json_string (asc ''content'') @ asc '': '' @
     json_list 3 (map json_string (content p)) @ newline_indent 2 @ asc ''}''"

definition json_dump :: "chapter_data \<Rightarrow> ustr" where
  "json_dump d =
     asc ''{'' @ newline_indent 1 @
     json_string (asc ''id'') @ asc '': '' @ repr_int (id' d) @ asc '','' @ newline_indent 1 @
     json_string (asc ''title'') @ asc '': '' @ json_string (title d) @ asc '','' @
     newline_indent 1 @
     json_string (asc ''titleText'') @ asc '': '' @ json_string (titleText d) @ asc '','' @
     newline_indent 1 @
     json_string (asc ''paragraphs'') @ asc '': '' @
     json_list 1 (map json_para (paragraphs d)) @ newline_indent 0 @ asc ''}''"

text \<open>
  What a run leaves behind: the output directory (file name to text written), the lines
  printed, and the exception that ended the run if one did. The lines are kept as events:
  \<^verbatim>\<open>Processing\<close> carries the base name of the file, \<^verbatim>\<open>Created\<close> the output name, the
  id and the first twenty characters of \<^verbatim>\<open>titleText\<close>, \<^verbatim>\<open>Failed\<close> the exception.
\<close>

datatype event =
  NoFilesFound
  | Found nat
  | Processing ustr
  | Created ustr int ustr
  | Failed error
  | Done

record run =
  out_dir :: "ustr \<rightharpoonup> ustr"
  stdout :: "event list"
  uncaught :: "error option"

text \<open>
  The body of the loop (lines 139-154): the \<^verbatim>\<open>except\<close> clause turns the failure of
  \<^verbatim>\<open>parse_txt_file\<close> into a printed line. Opening and writing the output file is taken to
  succeed.
\<close>

definition process_file :: "txt_file \<Rightarrow> run \<Rightarrow> run" where
  "process_file txt_file st =
     (let st1 = st\<lparr>stdout := stdout st @ [Processing (stem txt_file)]\<rparr> in
      case parse_txt_file txt_file of
        Inl e \<Rightarrow> st1\<lparr>stdout := stdout st1 @ [Failed e]\<rparr>
      | Inr d \<Rightarrow>
          (let chapter_num = id' d; output_file = output_name chapter_num in
           st1\<lparr>out_dir := (out_dir st1)(output_file \<mapsto> json_dump d),
               stdout := stdout st1 @ [Created output_file chapter_num (take 20 (titleText d))]\<rparr>))"

fun process_files :: "txt_file list \<Rightarrow> run \<Rightarrow> run" where
  "process_files [] st = st"
| "process_files (txt_file # rest) st = process_files rest (process_file txt_file st)"

text \<open>
  The key of the sort (line 129). \<^verbatim>\<open>int\<close> is guarded by \<^verbatim>\<open>isdigit\<close>, and raises where
  the guard lets a digit through that is not decimal.
\<close>

definition sort_key_of :: "txt_file \<Rightarrow> error + int" where
  "sort_key_of p =
     (if isdigit (stem p) then
        (case py_int (stem p) of None \<Rightarrow> Inl (ValueError (stem p)) | Some n \<Rightarrow> Inr n)
      else Inr 0)"

text \<open>The keys of all files, computed in order before the sort; the first failure ends it.\<close>

fun sort_keys :: "txt_file list \<Rightarrow> error + int list" where
  "sort_keys [] = Inr []"
| "sort_keys (p # ps) =
     (case sort_key_of p of
        Inl e \<Rightarrow> Inl e
      | Inr k \<Rightarrow> (case sort_keys ps of Inl e \<Rightarrow> Inl e | Inr ks \<Rightarrow> Inr (k # ks)))"

text \<open>
  \<^verbatim>\<open>main\<close>, from the files that the glob yields (in the order it yields them) and the
  output directory as it stands. \<^verbatim>\<open>sorted\<close> is stable, as \<open>sort_key\<close> is. An exception of
  the sort is outside every \<^verbatim>\<open>try\<close> and ends the run before anything is printed or written.
\<close>

definition main :: "txt_file list \<Rightarrow> (ustr \<rightharpoonup> ustr) \<Rightarrow> run" where
  "main globbed out =
     (case sort_keys globbed of
        Inl e \<Rightarrow> \<lparr>out_dir = out, stdout = [], uncaught = Some e\<rparr>
      | Inr keys \<Rightarrow>
          (let txt_files = map snd (sort_key fst (zip keys globbed)) in
           if txt_files = [] then \<lparr>out_dir = out, stdout = [NoFilesFound], uncaught = None\<rparr>
           else (let st = process_files txt_files
                            \<lparr>out_dir = out, stdout = [Found (length txt_files)], uncaught = None\<rparr>
                 in st\<lparr>stdout := stdout st @ [Done]\<rparr>)))"

section \<open>The specification's wording of the two parsers\<close>

text \<open>
  The table as the specification describes it: the numbers one to twenty-five under their
  regular names, and the bare glyphs for a hundred and for zero.
\<close>

definition unit_glyph :: "nat \<Rightarrow> uchar" where
  "unit_glyph n = [LING, YI, ER, SAN, SI, WU, LIU, QI, BA, JIU, SHI] ! n"

definition numeral_name :: "nat \<Rightarrow> ustr" where
  "numeral_name n =
     (if n \<le> 10 then [unit_glyph n]
      else if n < 20 then [SHI, unit_glyph (n - 10)]
      else if n = 20 then [ER, SHI]
      else [ER, SHI, unit_glyph (n - 20)])"

definition spec_table :: "(ustr \<times> int) list" where
  "spec_table = map (\<lambda>n. (numeral_name n, int n)) [1..<26] @ [([BAI], 100), ([LING], 0)]"

text \<open>The table value of a string, zero when the string is not in the table.\<close>

definition table_value :: "ustr \<Rightarrow> int" where
  "table_value s = (case map_of spec_table s of Some v \<Rightarrow> v | None \<Rightarrow> 0)"

text \<open>
  The Numeral Parser in the specification's words: the exact match; else, after the glyph
  pair for twenty, 20 for a string of length two and otherwise 20 plus the table value of
  the remainder; else, after the glyph for ten, 10 for a string of length one and otherwise
  10 plus the table value of the remainder; else the sum of the table values of the glyphs.
\<close>

definition numeral_parser_spec :: "ustr \<Rightarrow> int" where
  "numeral_parser_spec s =
     (case map_of spec_table s of
        Some v \<Rightarrow> v
      | None \<Rightarrow>
          (case s of
             a # b # r \<Rightarrow>
               (if a = ER \<and> b = SHI then (if r = [] then 20 else 20 + table_value r)
                else if a = SHI then 10 + table_value (b # r)
                else (\<Sum>g\<leftarrow>s. table_value [g]))
           | [a] \<Rightarrow> (if a = SHI then 10 else table_value [a])
           | [] \<Rightarrow> 0))"

text \<open>A blank line: nothing but whitespace.\<close>

definition blank :: "ustr \<Rightarrow> bool" where
  "blank l \<longleftrightarrow> list_all isspace l"

text \<open>The maximal runs of consecutive elements that satisfy \<open>P\<close>, in order.\<close>

function runs :: "('a \<Rightarrow> bool) \<Rightarrow> 'a list \<Rightarrow> 'a list list" where
  "runs P [] = []"
| "runs P (x # xs) =
     (if P x then (x # takeWhile P xs) # runs P (dropWhile P xs) else runs P xs)"
  by pat_completeness auto
termination
  by (relation "measure (\<lambda>(P, xs). length xs)") (auto simp: less_Suc_eq_le length_dropWhile_le)

text \<open>
  Paragraph segmentation in the specification's words: one paragraph for each maximal run
  of lines that are not blank, holding the stripped lines of the run joined without separator.
\<close>

definition paragraphs_spec :: "ustr list \<Rightarrow> para list" where
  "paragraphs_spec lines =
     map (\<lambda>r. \<lparr>content = [concat (map strip r)]\<rparr>) (runs (\<lambda>l. \<not> blank l) lines)"

section \<open>Notions used in the statements\<close>

text \<open>The flush after the loop, on the pair of variables the loop ends with.\<close>

definition flush :: "para list \<times> ustr list \<Rightarrow> para list" where
  "flush st =
     (case st of (paras, current) \<Rightarrow>
        if current \<noteq> [] then paras @ [\<lparr>content = [concat current]\<rparr>] else paras)"

text \<open>
  The lines of a file as the parser takes them (\<^verbatim>\<open>content.strip().split('\n')\<close>), and the
  title line: the first of them, stripped.
\<close>

definition file_lines :: "ustr \<Rightarrow> ustr list" where
  "file_lines text = split_nl (strip text)"

definition first_line_of :: "ustr \<Rightarrow> ustr" where
  "first_line_of text = strip (hd (file_lines text))"

text \<open>A trimmed text: no whitespace at either end.\<close>

definition trimmed :: "ustr \<Rightarrow> bool" where
  "trimmed s \<longleftrightarrow> s = [] \<or> (\<not> isspace (hd s) \<and> \<not> isspace (last s))"

text \<open>The lines of a text, each stripped, without the trim of the end of the text.\<close>

definition stripped_lines :: "ustr \<Rightarrow> ustr list" where
  "stripped_lines text = map strip (split_nl (lstrip text))"

text \<open>
  What one file adds to a run: the output file it writes, if its parse succeeds, and the
  lines it prints. The writes of a list of files are laid over one another in order, the
  later file winning where two write the same name.
\<close>

definition file_writes :: "txt_file \<Rightarrow> (ustr \<rightharpoonup> ustr)" where
  "file_writes p =
     (case parse_txt_file p of
        Inl e \<Rightarrow> Map.empty
      | Inr d \<Rightarrow> [output_name (id' d) \<mapsto> json_dump d])"

definition file_events :: "txt_file \<Rightarrow> event list" where
  "file_events p =
     (case parse_txt_file p of
        Inl e \<Rightarrow> [Processing (stem p), Failed e]
      | Inr d \<Rightarrow> [Processing (stem p),
                   Created (output_name (id' d)) (id' d) (take 20 (titleText d))])"

fun all_writes :: "txt_file list \<Rightarrow> (ustr \<rightharpoonup> ustr)" where
  "all_writes [] = Map.empty"
| "all_writes (p # ps) = file_writes p ++ all_writes ps"

section \<open>Evaluation on concrete inputs\<close>

text \<open>The definitions that the simplifier unfolds to run the model on a given input.\<close>

lemmas text_eval = strip_def lstrip_def rstrip_def isspace_def asc_def

lemmas int_eval = py_int_def to_ascii_def to_ascii_char_def long_from_string_def
  c_isspace_def ascii_digit_def

lemmas title_eval = parse_chapter_title_def title_match_def numeral_glyph_def
  convert_numeral_def chinese_nums_def

lemmas digit_eval = isdigit_def isdigit_char_def unicode_decimal_def nd_zeros_def
  other_digit_ranges_def

section \<open>Properties of the numeral parser\<close>

lemma spec_table_eq: "spec_table = chinese_nums"
  unfolding spec_table_def chinese_nums_def
  by (simp add: upt_rec numeral_name_def unit_glyph_def)

lemma table_value_eq: "table_value = nums_get0"
  by (auto simp: table_value_def nums_get0_def spec_table_eq fun_eq_iff)

lemma sum_glyphs_acc: "sum_glyphs s a = a + (\<Sum>g\<leftarrow>s. nums_get0 [g])"
  by (induction s arbitrary: a) (auto simp: nums_get0_def split: option.splits)

text \<open>
  Claim C1. For every string the conversion of the source computes what the algorithm of
  the specification computes: the exact match in the table of 1..25, hundred and zero; else
  the branch of the twenty prefix; else the branch of the ten prefix; else the sum of the
  table values of the single glyphs, unknown glyphs counting zero.
\<close>

theorem convert_numeral_refines_spec: "convert_numeral s = numeral_parser_spec s"
proof (cases "map_of chinese_nums s")
  case (Some v)
  then show ?thesis
    by (simp add: convert_numeral_def numeral_parser_spec_def spec_table_eq)
next
  case None
  show ?thesis
  proof (cases s)
    case Nil
    with None show ?thesis
      by (simp add: convert_numeral_def numeral_parser_spec_def spec_table_eq startswith_def)
  next
    case (Cons a t)
    note s_def = this
    show ?thesis
    proof (cases t)
      case Nil
      with None s_def show ?thesis
        by (simp add: convert_numeral_def numeral_parser_spec_def spec_table_eq
            startswith_def table_value_eq nums_get0_def)
    next
      case (Cons b r)
      with None s_def show ?thesis
        by (auto simp: convert_numeral_def numeral_parser_spec_def spec_table_eq
            startswith_def table_value_eq sum_glyphs_acc)
    qed
  qed
qed

text \<open>
  Claim C3. The numeral U+4E00 U+767E U+516B (one, hundred, eight) is not in the table and
  starts with neither the twenty pair nor the ten glyph, so it takes the summing branch,
  and its value is 1 + 100 + 8 = 109, not 108; a title line with this numeral gets 109.
\<close>

theorem one_hundred_eight_is_109:
  "map_of chinese_nums [YI, BAI, BA] = None \<and>
   \<not> startswith [YI, BAI, BA] [ER, SHI] \<and>
   \<not> startswith [YI, BAI, BA] [SHI] \<and>
   convert_numeral [YI, BAI, BA] = sum_glyphs [YI, BAI, BA] 0 \<and>
   sum_glyphs [YI, BAI, BA] 0 = 1 + 100 + 8 \<and>
   convert_numeral [YI, BAI, BA] = 109 \<and>
   convert_numeral [YI, BAI, BA] \<noteq> 108 \<and>
   fst (parse_chapter_title ([DI, YI, BAI, BA, HUI, SPACE] @ asc ''X'')) = 109"
  by (simp add: convert_numeral_def chinese_nums_def startswith_def parse_chapter_title_def
      title_match_def strip_def lstrip_def rstrip_def isspace_def numeral_glyph_def asc_def)

section \<open>Properties of whitespace, stripping and line splitting\<close>

lemma rstrip_Nil_iff: "rstrip s = [] \<longleftrightarrow> list_all isspace s"
  by (simp add: rstrip_def dropWhile_eq_Nil_conv list_all_iff)

lemma lstrip_Nil_iff: "lstrip s = [] \<longleftrightarrow> list_all isspace s"
  by (simp add: lstrip_def dropWhile_eq_Nil_conv list_all_iff)

lemma strip_Nil_iff: "strip s = [] \<longleftrightarrow> blank s"
  unfolding strip_def blank_def rstrip_Nil_iff lstrip_def
  by (induction s) (auto simp: list_all_iff dest: set_dropWhileD)

text \<open>The shape of a stripped text: whitespace, the trimmed middle, whitespace.\<close>

lemma lstrip_sandwich:
  "list_all isspace a \<Longrightarrow> m = [] \<or> \<not> isspace (hd m) \<Longrightarrow> lstrip (a @ m) = m"
  by (cases m) (auto simp: lstrip_def list_all_iff dropWhile_append dropWhile_eq_Nil_conv)

lemma rstrip_sandwich:
  "list_all isspace b \<Longrightarrow> m = [] \<or> \<not> isspace (last m) \<Longrightarrow> rstrip (m @ b) = m"
proof -
  assume b: "list_all isspace b" and m: "m = [] \<or> \<not> isspace (last m)"
  have "dropWhile isspace (rev b @ rev m) = dropWhile isspace (rev m)"
    using b by (simp add: dropWhile_append list_all_iff)
  moreover have "dropWhile isspace (rev m) = rev m"
    using m by (cases "rev m") (auto simp: hd_rev [symmetric] simp del: hd_rev)
  ultimately show ?thesis by (simp add: rstrip_def)
qed

lemma strip_sandwich:
  assumes "list_all isspace a" and "list_all isspace b" and "trimmed m"
  shows "strip (a @ m @ b) = m"
proof (cases "m = []")
  case True
  with assms show ?thesis by (simp add: strip_Nil_iff blank_def)
next
  case False
  with assms(3) have hd: "\<not> isspace (hd m)" and last: "\<not> isspace (last m)"
    by (simp_all add: trimmed_def)
  from False hd have "m @ b = [] \<or> \<not> isspace (hd (m @ b))" by simp
  from lstrip_sandwich [OF assms(1) this] have "lstrip (a @ m @ b) = m @ b" .
  moreover have "rstrip (m @ b) = m"
    using rstrip_sandwich [OF assms(2)] last by simp
  ultimately show ?thesis by (simp add: strip_def)
qed

lemma strip_trimmed_id: "trimmed m \<Longrightarrow> strip m = m"
  using strip_sandwich [of "[]" "[]" m] by simp

lemma lstrip_decomp: "\<exists>a. s = a @ lstrip s \<and> list_all isspace a"
proof
  show "s = takeWhile isspace s @ lstrip s \<and> list_all isspace (takeWhile isspace s)"
    by (auto simp: lstrip_def list_all_iff dest: set_takeWhileD)
qed

lemma rstrip_decomp: "\<exists>b. s = rstrip s @ b \<and> list_all isspace b"
proof
  let ?b = "rev (takeWhile isspace (rev s))"
  have "rev s = takeWhile isspace (rev s) @ dropWhile isspace (rev s)" by simp
  then have "rev (rev s) = rev (takeWhile isspace (rev s) @ dropWhile isspace (rev s))"
    by (rule arg_cong)
  then have "s = rstrip s @ ?b" by (simp add: rstrip_def del: takeWhile_dropWhile_id)
  moreover have "list_all isspace ?b"
    by (auto simp: list_all_iff dest: set_takeWhileD)
  ultimately show "s = rstrip s @ ?b \<and> list_all isspace ?b" by simp
qed

lemma lstrip_hd: "lstrip s \<noteq> [] \<Longrightarrow> \<not> isspace (hd (lstrip s))"
  unfolding lstrip_def by (rule hd_dropWhile)

lemma rstrip_last: "rstrip s \<noteq> [] \<Longrightarrow> \<not> isspace (last (rstrip s))"
proof -
  assume "rstrip s \<noteq> []"
  then have ne: "dropWhile isspace (rev s) \<noteq> []" by (simp add: rstrip_def)
  from hd_dropWhile [OF ne] show ?thesis
    using ne by (simp add: rstrip_def last_rev)
qed

lemma rstrip_hd: "rstrip s \<noteq> [] \<Longrightarrow> hd (rstrip s) = hd s"
proof -
  assume ne: "rstrip s \<noteq> []"
  from rstrip_decomp obtain b where "s = rstrip s @ b" by blast
  then have "hd s = hd (rstrip s @ b)" by simp
  with ne show ?thesis by simp
qed

lemma trimmed_strip: "trimmed (strip s)"
proof (cases "strip s = []")
  case True then show ?thesis by (simp add: trimmed_def)
next
  case False
  then have r: "rstrip (lstrip s) \<noteq> []" by (simp add: strip_def)
  then have l: "lstrip s \<noteq> []" by (auto simp: rstrip_def)
  from rstrip_hd [OF r] lstrip_hd [OF l] have "\<not> isspace (hd (strip s))"
    by (simp add: strip_def)
  moreover from rstrip_last [OF r] have "\<not> isspace (last (strip s))"
    by (simp add: strip_def)
  ultimately show ?thesis by (simp add: trimmed_def)
qed

lemma strip_strip: "strip (strip s) = strip s"
  by (rule strip_trimmed_id [OF trimmed_strip])

lemma strip_decomp:
  "\<exists>a b. s = a @ strip s @ b \<and> list_all isspace a \<and> list_all isspace b"
proof -
  from lstrip_decomp obtain a where a: "s = a @ lstrip s" "list_all isspace a" by blast
  from rstrip_decomp obtain b where b: "lstrip s = rstrip (lstrip s) @ b" "list_all isspace b"
    by blast
  from a(1) b(1) have "s = a @ strip s @ b" by (simp add: strip_def)
  with a(2) b(2) show ?thesis by blast
qed

lemma set_strip_subset: "set (strip s) \<subseteq> set s"
proof -
  from strip_decomp obtain a b where "s = a @ strip s @ b" by blast
  then have "set s = set (a @ strip s @ b)" by simp
  then show ?thesis by auto
qed

section \<open>Properties of the paragraph segmentation\<close>

lemma runs_props: "r \<in> set (runs P xs) \<Longrightarrow> r \<noteq> [] \<and> list_all P r"
proof (induction P xs rule: runs.induct)
  case (1 P)
  then show ?case by simp
next
  case (2 P x xs)
  show ?case
  proof (cases "P x")
    case False
    with 2 show ?thesis by simp
  next
    case True
    have all: "list_all P (x # takeWhile P xs)"
      using True by (auto simp: list_all_iff dest: set_takeWhileD)
    from 2(3) True have "r = x # takeWhile P xs \<or> r \<in> set (runs P (dropWhile P xs))"
      by simp
    then show ?thesis
    proof
      assume "r = x # takeWhile P xs"
      with all show ?thesis by simp
    next
      assume "r \<in> set (runs P (dropWhile P xs))"
      with 2(1) True show ?thesis by simp
    qed
  qed
qed

lemma filter_takeWhile_dropWhile: "filter P xs = takeWhile P xs @ filter P (dropWhile P xs)"
  by (induction xs) auto

lemma concat_runs: "concat (runs P xs) = filter P xs"
proof (induction P xs rule: runs.induct)
  case (1 P)
  show ?case by simp
next
  case (2 P x xs)
  then show ?case using filter_takeWhile_dropWhile [of P xs] by simp
qed

lemma takeWhile_stop: "\<not> P x \<Longrightarrow> takeWhile P (ys @ x # b) = takeWhile P ys"
  by (induction ys) auto

lemma dropWhile_stop: "\<not> P x \<Longrightarrow> dropWhile P (ys @ x # b) = dropWhile P ys @ x # b"
  by (induction ys) auto

text \<open>An element outside \<open>P\<close> separates the runs before it from the runs after it.\<close>

lemma runs_split: "\<not> P x \<Longrightarrow> runs P (a @ x # b) = runs P a @ runs P b"
proof (induction P a rule: runs.induct)
  case (1 P) then show ?case by simp
next
  case (2 P y ys)
  then show ?case by (simp add: takeWhile_stop dropWhile_stop)
qed

text \<open>A non-empty list of elements of \<open>P\<close> is one run.\<close>

lemma runs_whole: "r \<noteq> [] \<Longrightarrow> list_all P r \<Longrightarrow> runs P r = [r]"
proof (cases r)
  case Nil
  assume "r \<noteq> []" with Nil show ?thesis by simp
next
  case (Cons a t)
  assume "list_all P r"
  with Cons have a: "P a" and tw: "takeWhile P t = t" and dw: "dropWhile P t = []"
    by (simp_all add: list_all_iff)
  have "runs P (a # t) = (a # takeWhile P t) # runs P (dropWhile P t)"
    using a by simp
  also have "\<dots> = [a # t]"
    by (simp only: tw dw runs.simps)
  finally show ?thesis using Cons by simp
qed

text \<open>
  The loop invariant: what the loop and the flush yield from any state is the paragraphs
  emitted so far, then the open paragraph completed by the non-blank lines that follow,
  then the paragraphs of the remaining lines.
\<close>

lemma paragraph_loop_spec:
  "flush (paragraph_loop lines paras cur) =
     paras @ (if cur = [] then paragraphs_spec lines
              else \<lparr>content = [concat (cur @ map strip (takeWhile (\<lambda>l. \<not> blank l) lines))]\<rparr>
                   # paragraphs_spec (dropWhile (\<lambda>l. \<not> blank l) lines))"
proof (induction lines arbitrary: paras cur)
  case Nil
  show ?case by (simp add: flush_def paragraphs_spec_def)
next
  case (Cons line rest)
  show ?case
  proof (cases "blank line")
    case True
    then show ?thesis
      using Cons.IH [of "paras @ [\<lparr>content = [concat cur]\<rparr>]" "[]"] Cons.IH [of paras "[]"]
      by (simp add: strip_Nil_iff paragraphs_spec_def)
  next
    case False
    then show ?thesis
      using Cons.IH [of paras "cur @ [strip line]"]
      by (simp add: strip_Nil_iff paragraphs_spec_def)
  qed
qed

lemma parse_paragraphs_spec: "parse_paragraphs lines = paragraphs_spec lines"
  using paragraph_loop_spec [of lines "[]" "[]"]
  by (simp add: parse_paragraphs_def flush_def split: prod.splits)

lemma paragraphs_spec_nonempty:
  assumes "p \<in> set (paragraphs_spec lines)"
  shows "\<exists>t. content p = [t] \<and> t \<noteq> []"
proof -
  from assms obtain r where r: "r \<in> set (runs (\<lambda>l. \<not> blank l) lines)"
    and p: "p = \<lparr>content = [concat (map strip r)]\<rparr>"
    by (auto simp: paragraphs_spec_def)
  from runs_props [OF r] obtain l t where "r = l # t" and "\<not> blank l"
    by (cases r) auto
  then have "concat (map strip r) \<noteq> []"
    by (simp add: strip_Nil_iff)
  with p show ?thesis by simp
qed

lemma split_nl_not_Nil: "split_nl s \<noteq> []"
  by (induction s) (auto split: list.splits)

section \<open>Properties of the chapter parser\<close>

lemma parse_txt_file_unfold:
  "parse_txt_file f =
     (case parse_chapter_title (first_line_of (contents f)) of
        (chapter_num, title_text) \<Rightarrow>
          (case (if chapter_num = 0 then py_int (stem f) else Some chapter_num) of
             None \<Rightarrow> Inl (ValueError (stem f))
           | Some n \<Rightarrow>
               Inr \<lparr>id' = n, title = first_line_of (contents f), titleText = title_text,
                    paragraphs = parse_paragraphs (tl (file_lines (contents f)))\<rparr>))"
proof (cases "split_nl (strip (contents f))")
  case Nil
  then show ?thesis using split_nl_not_Nil by blast
next
  case (Cons line0 rest)
  have a: "first_line_of (contents f) = strip line0"
    and b: "tl (file_lines (contents f)) = rest"
    using Cons by (simp_all add: first_line_of_def file_lines_def)
  show ?thesis
    unfolding a b parse_txt_file_def Cons by (simp add: Let_def)
qed

text \<open>
  Claim C2. The paragraphs of the lines after the title are the maximal runs of consecutive
  non-blank lines, each emitted as one paragraph whose content is the single string of its
  stripped lines joined without separator (the last run included); no paragraph is empty;
  this holds for the paragraphs of every record the parser returns; and the lines
  "", A, B, "", "", C, "" give exactly the paragraphs AB and C.
\<close>

theorem paragraph_segmentation:
  "parse_paragraphs lines = paragraphs_spec lines \<and>
   (\<forall>p \<in> set (parse_paragraphs lines). \<exists>t. content p = [t] \<and> t \<noteq> []) \<and>
   (\<forall>d. parse_txt_file f = Inr d \<longrightarrow>
        paragraphs d = paragraphs_spec (tl (file_lines (contents f)))) \<and>
   parse_paragraphs [[], asc ''A'', asc ''B'', [], [], asc ''C'', []] =
     [\<lparr>content = [asc ''AB'']\<rparr>, \<lparr>content = [asc ''C'']\<rparr>]"
proof (intro conjI)
  show "parse_paragraphs lines = paragraphs_spec lines"
    by (rule parse_paragraphs_spec)
  show "\<forall>p \<in> set (parse_paragraphs lines). \<exists>t. content p = [t] \<and> t \<noteq> []"
    using paragraphs_spec_nonempty by (simp add: parse_paragraphs_spec)
  show "\<forall>d. parse_txt_file f = Inr d \<longrightarrow>
        paragraphs d = paragraphs_spec (tl (file_lines (contents f)))"
    by (auto simp: parse_txt_file_unfold parse_paragraphs_spec split: prod.splits option.splits)
  show "parse_paragraphs [[], asc ''A'', asc ''B'', [], [], asc ''C'', []] =
     [\<lparr>content = [asc ''AB'']\<rparr>, \<lparr>content = [asc ''C'']\<rparr>]"
    by (simp add: parse_paragraphs_def text_eval)
qed

theorem paragraph_segmentation_witness:
  "parse_txt_file \<lparr>stem = asc ''1'',
      contents = [DI, YI, HUI, SPACE, 30002, NL, NL] @ asc ''A'' @ [NL] @ asc ''B'' @ [NL, NL, NL] @ asc ''C'' @ [NL]\<rparr>
     = Inr \<lparr>id' = 1, title = [DI, YI, HUI, SPACE, 30002], titleText = [30002],
            paragraphs = [\<lparr>content = [asc ''AB'']\<rparr>, \<lparr>content = [asc ''C'']\<rparr>]\<rparr> \<and>
   paragraphs_spec (tl (file_lines ([DI, YI, HUI, SPACE, 30002, NL, NL] @ asc ''A'' @ [NL] @ asc ''B'' @ [NL, NL, NL] @ asc ''C'' @ [NL])))
     = [\<lparr>content = [asc ''AB'']\<rparr>, \<lparr>content = [asc ''C'']\<rparr>] \<and>
   paragraphs_spec [[], asc ''A'', asc ''B'', [], [], asc ''C'', []] =
     [\<lparr>content = [asc ''AB'']\<rparr>, \<lparr>content = [asc ''C'']\<rparr>] \<and>
   (\<exists>t. content \<lparr>content = [asc ''AB'']\<rparr> = [t] \<and> t \<noteq> [])"
proof -
  let ?f = "\<lparr>stem = asc ''1'',
      contents = [DI, YI, HUI, SPACE, 30002, NL, NL] @ asc ''A'' @ [NL] @ asc ''B'' @ [NL, NL, NL] @ asc ''C'' @ [NL]\<rparr>"
  let ?L = "[[], asc ''A'', asc ''B'', [], [], asc ''C'', []]"
  have parse: "parse_txt_file ?f = Inr \<lparr>id' = 1, title = [DI, YI, HUI, SPACE, 30002], titleText = [30002],
            paragraphs = [\<lparr>content = [asc ''AB'']\<rparr>, \<lparr>content = [asc ''C'']\<rparr>]\<rparr>"
    by (simp add: parse_txt_file_def parse_chapter_title_def title_match_def numeral_glyph_def
        convert_numeral_def chinese_nums_def parse_paragraphs_def text_eval)
  note seg = paragraph_segmentation [of ?L ?f]
  from seg have eqL: "parse_paragraphs ?L = paragraphs_spec ?L"
    by (rule conjunct1)
  from seg have exL: "parse_paragraphs ?L =
      [\<lparr>content = [asc ''AB'']\<rparr>, \<lparr>content = [asc ''C'']\<rparr>]"
    by (rule conjunct2 [THEN conjunct2, THEN conjunct2])
  from seg have "\<forall>d. parse_txt_file ?f = Inr d \<longrightarrow>
      paragraphs d = paragraphs_spec (tl (file_lines (contents ?f)))"
    by (rule conjunct2 [THEN conjunct2, THEN conjunct1])
  from this [rule_format, OF parse]
  have eqf: "paragraphs_spec (tl (file_lines (contents ?f))) =
      [\<lparr>content = [asc ''AB'']\<rparr>, \<lparr>content = [asc ''C'']\<rparr>]"
    by simp
  have ne: "\<exists>t. content \<lparr>content = [asc ''AB'']\<rparr> = [t] \<and> t \<noteq> []"
    by (simp add: asc_def)
  from parse eqf eqL exL ne show ?thesis
    by (simp only: txt_file.simps)
qed

section \<open>Properties of the title parser\<close>

lemma match_tail_nonblank:
  "\<not> blank y \<Longrightarrow> match_tail y = Some (takeWhile (\<lambda>x. x \<noteq> NL) (lstrip y))"
  by (induction y) (auto simp: blank_def lstrip_def)

lemma not_numeral_glyph_HUI: "\<not> numeral_glyph HUI"
  by (simp add: numeral_glyph_def)

lemma not_isspace_DI: "\<not> isspace DI"
  by (simp add: isspace_def)

lemma title_match_marker:
  assumes "num \<noteq> []" and "list_all numeral_glyph num"
  shows "title_match (DI # num @ HUI # rest) = map_option (Pair num) (match_tail rest)"
proof -
  have tw: "takeWhile numeral_glyph (num @ HUI # rest) = num"
    using assms(2) takeWhile_stop [of numeral_glyph HUI num rest] not_numeral_glyph_HUI
    by (simp add: list_all_iff)
  have dw: "dropWhile numeral_glyph (num @ HUI # rest) = HUI # rest"
    using assms(2) dropWhile_stop [of numeral_glyph HUI num rest] not_numeral_glyph_HUI
    by (simp add: list_all_iff)
  show ?thesis
    using assms(1) by (simp add: title_match_def tw dw split: option.splits)
qed

lemma parse_chapter_title_strip: "parse_chapter_title (strip l) = parse_chapter_title l"
  by (simp add: parse_chapter_title_def strip_strip split: option.splits)

text \<open>A title line with the marker, whitespace and a text that is not blank.\<close>

lemma parse_title_marker:
  assumes num: "num \<noteq> []" "list_all numeral_glyph num"
    and w: "list_all isspace w"
    and X: "\<not> blank X" "NL \<notin> set X"
  shows "parse_chapter_title (DI # num @ HUI # w @ X) = (convert_numeral num, strip X)"
proof -
  from strip_decomp obtain a b where ab: "X = a @ strip X @ b" "list_all isspace a" "list_all isspace b"
    by blast
  let ?m = "strip X"
  from X(1) have m_ne: "?m \<noteq> []" by (simp add: strip_Nil_iff)
  have m_tr: "trimmed ?m" by (rule trimmed_strip)
  let ?t = "DI # num @ HUI # w @ a @ ?m"
  have last_t: "last ?t = last ?m" using m_ne by simp
  have "trimmed ?t"
    using m_tr m_ne not_isspace_DI last_t by (simp add: trimmed_def)
  from strip_sandwich [OF _ ab(3) this, of "[]"]
  have "strip (?t @ b) = ?t" by simp
  moreover have "DI # num @ HUI # w @ X = ?t @ b"
    using ab(1) by simp
  ultimately have strip_line: "strip (DI # num @ HUI # w @ X) = DI # num @ HUI # (w @ a) @ ?m"
    by simp
  have wa: "list_all isspace (w @ a)" using w ab(2) by simp
  have "\<not> blank ((w @ a) @ ?m)"
    using m_tr m_ne by (auto simp: blank_def trimmed_def list_all_iff)
  from match_tail_nonblank [OF this]
  have "match_tail ((w @ a) @ ?m) = Some (takeWhile (\<lambda>x. x \<noteq> NL) (lstrip ((w @ a) @ ?m)))" .
  moreover have "lstrip ((w @ a) @ ?m) = ?m"
    using lstrip_sandwich [OF wa, of ?m] m_tr m_ne by (simp add: trimmed_def)
  moreover have "takeWhile (\<lambda>x. x \<noteq> NL) ?m = ?m"
    using X(2) set_strip_subset [of X] by (auto simp: takeWhile_eq_all_conv)
  ultimately have mt: "match_tail ((w @ a) @ ?m) = Some ?m" by simp
  show ?thesis
    unfolding parse_chapter_title_def strip_line title_match_marker [OF num] mt
    by (simp add: strip_strip)
qed

text \<open>A title line that ends with the marker.\<close>

lemma marker_only_no_match:
  assumes line: "strip first_line = DI # num @ HUI # w"
    and num: "num \<noteq> []" "list_all numeral_glyph num"
    and w: "list_all isspace w"
  shows "w = []" and "title_match (strip first_line) = None"
proof -
  have "trimmed (DI # num @ HUI # w)"
    using trimmed_strip [of first_line] line by simp
  then have "\<not> isspace (last (DI # num @ HUI # w))"
    by (simp add: trimmed_def)
  then show "w = []"
    using w by (cases "w = []") (auto simp: list_all_iff)
  then show "title_match (strip first_line) = None"
    using line title_match_marker [OF num, of "[]"] by simp
qed

lemma convert_numeral_values:
  "convert_numeral [YI] = 1" "convert_numeral [ER, SHI, YI] = 21" "convert_numeral [SHI] = 10"
  by (simp_all add: convert_numeral_def chinese_nums_def)

lemma parse_txt_file_fallback:
  assumes "parse_chapter_title (first_line_of (contents f)) = (0, t)"
  shows "parse_txt_file f =
     (case py_int (stem f) of
        None \<Rightarrow> Inl (ValueError (stem f))
      | Some n \<Rightarrow>
          Inr \<lparr>id' = n, title = first_line_of (contents f), titleText = t,
               paragraphs = parse_paragraphs (tl (file_lines (contents f)))\<rparr>)"
  using assms by (simp add: parse_txt_file_unfold)

lemma py_int_5: "py_int (asc ''5'') = Some 5"
  by (simp add: py_int_def to_ascii_def to_ascii_char_def long_from_string_def c_isspace_def
      ascii_digit_def asc_def)

text \<open>
  Claim C9. When the trimmed first line is the marker alone (U+7B2C, one or more numeral
  glyphs, U+56DE, and at most whitespace after it), the pattern does not match: the
  candidate id is 0 and the title text is the whole trimmed line; for a file with this
  title line the id is what the base name of the file gives.
\<close>

theorem marker_without_text_does_not_match:
  assumes "strip first_line = DI # num @ HUI # w"
    and "num \<noteq> []" and "list_all numeral_glyph num" and "list_all isspace w"
  shows "title_match (strip first_line) = None \<and>
         parse_chapter_title first_line = (0, strip first_line) \<and>
         (first_line_of (contents f) = strip first_line \<longrightarrow>
            parse_txt_file f =
              (case py_int (stem f) of
                 None \<Rightarrow> Inl (ValueError (stem f))
               | Some n \<Rightarrow>
                   Inr \<lparr>id' = n, title = strip first_line, titleText = strip first_line,
                        paragraphs = parse_paragraphs (tl (file_lines (contents f)))\<rparr>))"
proof -
  have nomatch: "title_match (strip first_line) = None"
    by (rule marker_only_no_match(2) [OF assms])
  then have pct: "parse_chapter_title first_line = (0, strip first_line)"
    by (simp add: parse_chapter_title_def)
  have "first_line_of (contents f) = strip first_line \<Longrightarrow>
        parse_chapter_title (first_line_of (contents f)) = (0, strip first_line)"
    using pct by (simp add: parse_chapter_title_strip)
  from parse_txt_file_fallback [OF this] nomatch pct show ?thesis
    by (auto split: option.splits)
qed

theorem marker_without_text_does_not_match_witness:
  "strip [DI, YI, HUI] = DI # [YI] @ HUI # [] \<and>
   title_match (strip [DI, YI, HUI]) = None \<and>
   parse_chapter_title [DI, YI, HUI] = (0, [DI, YI, HUI]) \<and>
   parse_txt_file \<lparr>stem = asc ''3'', contents = [DI, YI, HUI, NL] @ asc ''B''\<rparr> =
     Inr \<lparr>id' = 3, title = [DI, YI, HUI], titleText = [DI, YI, HUI],
          paragraphs = [\<lparr>content = [asc ''B'']\<rparr>]\<rparr>"
proof -
  let ?f = "\<lparr>stem = asc ''3'', contents = [DI, YI, HUI, NL] @ asc ''B''\<rparr>"
  have s: "strip [DI, YI, HUI] = DI # [YI] @ HUI # []"
    by (simp add: text_eval)
  have n: "[YI] \<noteq> []" "list_all numeral_glyph [YI]" "list_all isspace []"
    by (simp_all add: numeral_glyph_def)
  note inst = marker_without_text_does_not_match [OF s n, of ?f]
  have fl: "first_line_of (contents ?f) = strip [DI, YI, HUI]"
    by (simp add: first_line_of_def file_lines_def text_eval)
  have pi: "py_int (asc ''3'') = Some 3"
    by (simp add: py_int_def to_ascii_def to_ascii_char_def long_from_string_def c_isspace_def
      ascii_digit_def asc_def)
  have pp: "parse_paragraphs (tl (file_lines (contents ?f))) = [\<lparr>content = [asc ''B'']\<rparr>]"
    by (simp add: file_lines_def parse_paragraphs_def text_eval)
  from inst fl pi pp s show ?thesis
    by simp
qed

text \<open>
  Claim C7. A file whose base name is "5" and whose trimmed first line the pattern does not
  match yields the record with id 5 and with title and titleText both the trimmed first
  line.
\<close>

theorem filename_fallback_5:
  assumes "stem f = asc ''5''" and "title_match (first_line_of (contents f)) = None"
  shows "parse_txt_file f =
     Inr \<lparr>id' = 5, title = first_line_of (contents f),
          titleText = first_line_of (contents f),
          paragraphs = parse_paragraphs (tl (file_lines (contents f)))\<rparr>"
proof -
  have "strip (first_line_of (contents f)) = first_line_of (contents f)"
    by (simp add: first_line_of_def strip_strip)
  with assms(2) have "parse_chapter_title (first_line_of (contents f)) =
      (0, first_line_of (contents f))"
    by (simp add: parse_chapter_title_def)
  from parse_txt_file_fallback [OF this] assms(1) py_int_5 show ?thesis
    by simp
qed

theorem filename_fallback_5_witness:
  "stem \<lparr>stem = asc ''5'', contents = asc ''Some preface''\<rparr> = asc ''5'' \<and>
   title_match (first_line_of (asc ''Some preface'')) = None \<and>
   parse_txt_file \<lparr>stem = asc ''5'', contents = asc ''Some preface''\<rparr> =
     Inr \<lparr>id' = 5, title = asc ''Some preface'', titleText = asc ''Some preface'',
          paragraphs = []\<rparr>"
proof -
  let ?f = "\<lparr>stem = asc ''5'', contents = asc ''Some preface''\<rparr>"
  have fl: "first_line_of (contents ?f) = asc ''Some preface''"
    by (simp add: first_line_of_def file_lines_def text_eval)
  have tm: "title_match (first_line_of (contents ?f)) = None"
    unfolding fl by (simp add: title_match_def asc_def)
  have st: "stem ?f = asc ''5''" by simp
  have pp: "parse_paragraphs (tl (file_lines (contents ?f))) = []"
    by (simp add: file_lines_def parse_paragraphs_def text_eval)
  from filename_fallback_5 [OF st tm] fl pp tm show ?thesis
    by simp
qed

lemma parse_txt_file_title_line:
  assumes "hd (file_lines (contents f)) = l \<or> first_line_of (contents f) = l"
    and "parse_chapter_title l = (n, t)" and "n \<noteq> 0"
  shows "\<exists>d. parse_txt_file f = Inr d \<and> id' d = n \<and> titleText d = t"
proof -
  from assms(1) have "parse_chapter_title (first_line_of (contents f)) = parse_chapter_title l"
    by (auto simp: first_line_of_def parse_chapter_title_strip)
  with assms(2,3) show ?thesis
    by (simp add: parse_txt_file_unfold)
qed

text \<open>
  Claim C6, as the code has it. For every text X that holds a character other than
  whitespace and no line feed, the first line "U+7B2C U+4E00 U+56DE, space, X" gives id 1 and
  as titleText X without its surrounding whitespace, which is X itself when X is trimmed;
  the numeral twenty-one gives id 21 and the numeral ten gives id 10. This holds for the
  title parser and for the record of every file with such a first line, whatever its name.
\<close>

theorem marker_title_ids:
  assumes "\<not> blank X" and "NL \<notin> set X"
  shows "parse_chapter_title ([DI, YI, HUI, SPACE] @ X) = (1, strip X) \<and>
         parse_chapter_title ([DI, ER, SHI, YI, HUI, SPACE] @ X) = (21, strip X) \<and>
         parse_chapter_title ([DI, SHI, HUI, SPACE] @ X) = (10, strip X) \<and>
         (hd (file_lines (contents f)) = [DI, YI, HUI, SPACE] @ X \<or>
          first_line_of (contents f) = [DI, YI, HUI, SPACE] @ X \<longrightarrow>
            (\<exists>d. parse_txt_file f = Inr d \<and> id' d = 1 \<and> titleText d = strip X)) \<and>
         (hd (file_lines (contents f)) = [DI, ER, SHI, YI, HUI, SPACE] @ X \<or>
          first_line_of (contents f) = [DI, ER, SHI, YI, HUI, SPACE] @ X \<longrightarrow>
            (\<exists>d. parse_txt_file f = Inr d \<and> id' d = 21 \<and> titleText d = strip X)) \<and>
         (hd (file_lines (contents f)) = [DI, SHI, HUI, SPACE] @ X \<or>
          first_line_of (contents f) = [DI, SHI, HUI, SPACE] @ X \<longrightarrow>
            (\<exists>d. parse_txt_file f = Inr d \<and> id' d = 10 \<and> titleText d = strip X)) \<and>
         (trimmed X \<longrightarrow> strip X = X)"
proof -
  have sp: "list_all isspace [SPACE]" by (simp add: isspace_def)
  have one: "parse_chapter_title ([DI, YI, HUI, SPACE] @ X) = (1, strip X)"
    using parse_title_marker [OF _ _ sp assms, of "[YI]"]
    by (simp add: numeral_glyph_def convert_numeral_values)
  have twentyone: "parse_chapter_title ([DI, ER, SHI, YI, HUI, SPACE] @ X) = (21, strip X)"
    using parse_title_marker [OF _ _ sp assms, of "[ER, SHI, YI]"]
    by (simp add: numeral_glyph_def convert_numeral_values)
  have ten: "parse_chapter_title ([DI, SHI, HUI, SPACE] @ X) = (10, strip X)"
    using parse_title_marker [OF _ _ sp assms, of "[SHI]"]
    by (simp add: numeral_glyph_def convert_numeral_values)
  have f1: "hd (file_lines (contents f)) = [DI, YI, HUI, SPACE] @ X \<or>
          first_line_of (contents f) = [DI, YI, HUI, SPACE] @ X \<longrightarrow>
            (\<exists>d. parse_txt_file f = Inr d \<and> id' d = 1 \<and> titleText d = strip X)"
    using parse_txt_file_title_line [OF _ one, of f] by simp
  have f21: "hd (file_lines (contents f)) = [DI, ER, SHI, YI, HUI, SPACE] @ X \<or>
          first_line_of (contents f) = [DI, ER, SHI, YI, HUI, SPACE] @ X \<longrightarrow>
            (\<exists>d. parse_txt_file f = Inr d \<and> id' d = 21 \<and> titleText d = strip X)"
    using parse_txt_file_title_line [OF _ twentyone, of f] by simp
  have f10: "hd (file_lines (contents f)) = [DI, SHI, HUI, SPACE] @ X \<or>
          first_line_of (contents f) = [DI, SHI, HUI, SPACE] @ X \<longrightarrow>
            (\<exists>d. parse_txt_file f = Inr d \<and> id' d = 10 \<and> titleText d = strip X)"
    using parse_txt_file_title_line [OF _ ten, of f] by simp
  have tr: "trimmed X \<longrightarrow> strip X = X"
    by (simp add: strip_trimmed_id)
  from one twentyone ten f1 f21 f10 tr show ?thesis
    by (intro conjI)
qed

theorem marker_title_ids_witness:
  "\<not> blank [30002] \<and> NL \<notin> set [30002] \<and> trimmed [30002] \<and>
   parse_chapter_title ([DI, YI, HUI, SPACE] @ [30002]) = (1, [30002]) \<and>
   parse_chapter_title ([DI, ER, SHI, YI, HUI, SPACE] @ [30002]) = (21, [30002]) \<and>
   parse_chapter_title ([DI, SHI, HUI, SPACE] @ [30002]) = (10, [30002]) \<and>
   first_line_of (contents \<lparr>stem = asc ''x'', contents = [DI, YI, HUI, SPACE] @ [30002]\<rparr>)
     = [DI, YI, HUI, SPACE] @ [30002] \<and>
   (\<exists>d. parse_txt_file \<lparr>stem = asc ''x'', contents = [DI, YI, HUI, SPACE] @ [30002]\<rparr> = Inr d \<and>
        id' d = 1 \<and> titleText d = [30002])"
proof -
  let ?f = "\<lparr>stem = asc ''x'', contents = [DI, YI, HUI, SPACE] @ [30002]\<rparr>"
  have nb: "\<not> blank [30002]" by (simp add: blank_def isspace_def)
  have nl: "NL \<notin> set [30002]" by simp
  have tr: "trimmed [30002]" by (simp add: trimmed_def isspace_def)
  have fl: "first_line_of (contents ?f) = [DI, YI, HUI, SPACE] @ [30002]"
    by (simp add: first_line_of_def file_lines_def text_eval)
  note inst = marker_title_ids [OF nb nl, of ?f]
  from inst tr have st: "strip [30002] = [30002]" by blast
  from inst fl have "\<exists>d. parse_txt_file ?f = Inr d \<and> id' d = 1 \<and> titleText d = strip [30002]"
    by blast
  with inst nb nl tr fl st show ?thesis
    by (simp only: simp_thms)
qed

text \<open>
  Claim C6 as stated fails where X is empty (the stripped line is the marker alone, the
  pattern does not match, and the id is that of the file name, here 7) and where X begins
  with whitespace (the titleText is X without it).
\<close>

theorem title_suffix_counterexample:
  "parse_txt_file \<lparr>stem = asc ''7'', contents = [DI, YI, HUI, SPACE] @ []\<rparr> =
     Inr \<lparr>id' = 7, title = [DI, YI, HUI], titleText = [DI, YI, HUI], paragraphs = []\<rparr> \<and>
   parse_txt_file \<lparr>stem = asc ''7'', contents = [DI, YI, HUI, SPACE] @ [SPACE, 30002]\<rparr> =
     Inr \<lparr>id' = 1, title = [DI, YI, HUI, SPACE, SPACE, 30002], titleText = [30002],
          paragraphs = []\<rparr> \<and>
   [30002] \<noteq> [SPACE, 30002]"
  by (simp add: parse_txt_file_def parse_chapter_title_def title_match_def numeral_glyph_def
      convert_numeral_def chinese_nums_def parse_paragraphs_def text_eval
      py_int_def to_ascii_def to_ascii_char_def long_from_string_def c_isspace_def ascii_digit_def
      Let_def)

section \<open>Blank lines\<close>

lemma split_nl_append: "split_nl (u @ NL # v) = split_nl u @ split_nl v"
proof (induction u)
  case Nil
  show ?case by simp
next
  case (Cons c u)
  obtain x xs where "split_nl u = x # xs"
    using split_nl_not_Nil [of u] by (cases "split_nl u") auto
  with Cons show ?case by simp
qed

lemma split_nl_single: "NL \<notin> set l \<Longrightarrow> split_nl l = [l]"
  by (induction l) auto

lemma split_nl_snoc:
  "c \<noteq> NL \<Longrightarrow> split_nl (e @ [c]) = butlast (split_nl e) @ [last (split_nl e) @ [c]]"
proof (induction e)
  case Nil
  then show ?case by simp
next
  case (Cons x e)
  obtain y ys where y: "split_nl e = y # ys"
    using split_nl_not_Nil [of e] by (cases "split_nl e") auto
  obtain z zs where z: "split_nl (e @ [c]) = z # zs"
    using split_nl_not_Nil [of "e @ [c]"] by (cases "split_nl (e @ [c])") auto
  from Cons y z show ?case
    by (cases ys) (auto split: if_splits)
qed

lemma strip_snoc_space: "isspace c \<Longrightarrow> strip (x @ [c]) = strip x"
proof -
  assume c: "isspace c"
  from strip_decomp obtain a b where ab: "x = a @ strip x @ b" "list_all isspace a" "list_all isspace b"
    by blast
  from ab(1) have "x @ [c] = a @ strip x @ (b @ [c])" by simp
  then have "strip (x @ [c]) = strip (a @ strip x @ (b @ [c]))" by (rule arg_cong)
  also have "\<dots> = strip x"
    by (rule strip_sandwich) (use ab c in \<open>simp_all add: trimmed_strip\<close>)
  finally show ?thesis .
qed

lemma stripped_snoc_space:
  assumes "isspace c"
  shows "map strip (split_nl (e @ [c])) = map strip (split_nl e) @ (if c = NL then [[]] else [])"
proof (cases "c = NL")
  case True
  then show ?thesis
    using split_nl_append [of e "[]"] by (simp add: strip_def lstrip_def rstrip_def)
next
  case False
  have ne: "split_nl e \<noteq> []" by (rule split_nl_not_Nil)
  have "map strip (butlast (split_nl e) @ [last (split_nl e) @ [c]])
        = map strip (butlast (split_nl e)) @ [strip (last (split_nl e))]"
    by (simp add: strip_snoc_space [OF assms])
  also have "\<dots> = map strip (butlast (split_nl e) @ [last (split_nl e)])" by simp
  also have "\<dots> = map strip (split_nl e)" using ne by simp
  finally show ?thesis using False split_nl_snoc [OF False, of e] by simp
qed

lemma stripped_trailing_space:
  "list_all isspace w \<Longrightarrow>
   \<exists>k. map strip (split_nl (e @ w)) = map strip (split_nl e) @ replicate k []"
proof (induction w arbitrary: e)
  case Nil
  have "map strip (split_nl (e @ [])) = map strip (split_nl e) @ replicate 0 []" by simp
  then show ?case by blast
next
  case (Cons c w)
  then have c: "isspace c" and w: "list_all isspace w" by simp_all
  from Cons.IH [OF w, of "e @ [c]"] obtain k where
    k: "map strip (split_nl ((e @ [c]) @ w)) = map strip (split_nl (e @ [c])) @ replicate k []"
    by blast
  have "map strip (split_nl (e @ c # w)) =
        map strip (split_nl e) @ replicate ((if c = NL then 1 else 0) + k) []"
    using k stripped_snoc_space [OF c, of e] by (simp add: replicate_add)
  then show ?case by blast
qed

lemma stripped_lines_file_lines:
  "\<exists>k. stripped_lines text = map strip (file_lines text) @ replicate k []"
proof -
  from rstrip_decomp [of "lstrip text"] obtain w where
    w: "lstrip text = rstrip (lstrip text) @ w" "list_all isspace w" by blast
  from stripped_trailing_space [OF w(2), of "rstrip (lstrip text)"] w(1)
  show ?thesis by (simp add: stripped_lines_def file_lines_def strip_def)
qed

lemma paragraph_loop_map_strip:
  "paragraph_loop (map strip ls) paras cur = paragraph_loop ls paras cur"
  by (induction ls arbitrary: paras cur) (simp_all add: strip_strip Let_def)

lemma parse_paragraphs_map_strip: "parse_paragraphs (map strip ls) = parse_paragraphs ls"
  by (simp add: parse_paragraphs_def paragraph_loop_map_strip)

lemma runs_replicate: "\<not> P x \<Longrightarrow> runs P (replicate k x) = []"
  by (induction k) simp_all

lemma runs_trailing: "\<not> P x \<Longrightarrow> runs P (ls @ replicate k x) = runs P ls"
proof (cases k)
  case 0 then show ?thesis by simp
next
  case (Suc j)
  assume x: "\<not> P x"
  have "runs P (ls @ x # replicate j x) = runs P ls @ runs P (replicate j x)"
    using x by (rule runs_split [of P x ls "replicate j x"])
  with Suc x show ?thesis by (simp add: runs_replicate)
qed

lemma parse_paragraphs_trailing_blank:
  "parse_paragraphs (ls @ replicate k []) = parse_paragraphs ls"
  using runs_trailing [of "\<lambda>l. \<not> blank l" "[]" ls k]
  by (simp add: parse_paragraphs_spec paragraphs_spec_def blank_def)

text \<open>The record depends on the text only through the stripped lines of the text.\<close>

lemma first_line_of_stripped: "first_line_of text = hd (stripped_lines text)"
proof -
  from stripped_lines_file_lines obtain k where
    k: "stripped_lines text = map strip (file_lines text) @ replicate k []" by blast
  have "file_lines text \<noteq> []" by (simp add: file_lines_def split_nl_not_Nil)
  with k show ?thesis by (simp add: first_line_of_def hd_map)
qed

lemma body_of_stripped:
  "parse_paragraphs (tl (file_lines text)) = parse_paragraphs (tl (stripped_lines text))"
proof -
  from stripped_lines_file_lines obtain k where
    k: "stripped_lines text = map strip (file_lines text) @ replicate k []" by blast
  have ne: "file_lines text \<noteq> []" by (simp add: file_lines_def split_nl_not_Nil)
  then have "tl (stripped_lines text) = map strip (tl (file_lines text)) @ replicate k []"
    using k by (simp add: map_tl)
  then show ?thesis
    by (simp add: parse_paragraphs_trailing_blank parse_paragraphs_map_strip)
qed

lemma parse_txt_file_stripped_lines:
  assumes "stripped_lines (contents f) = stripped_lines (contents g)" and "stem f = stem g"
  shows "parse_txt_file f = parse_txt_file g"
  unfolding parse_txt_file_unfold first_line_of_stripped body_of_stripped assms
  by (rule refl)

lemma lstrip_append_nonblank: "\<not> blank a \<Longrightarrow> lstrip (a @ x) = lstrip a @ x"
  by (auto simp: lstrip_def blank_def list_all_iff)

lemma stripped_lines_blank_line:
  assumes "blank l" and "NL \<notin> set l" and "\<not> blank a" and "rest = [] \<or> hd rest = NL"
  shows "stripped_lines (a @ NL # l @ rest) =
         map strip (split_nl (lstrip a)) @ [] # (if rest = [] then [] else map strip (split_nl (tl rest)))"
proof -
  have sl: "strip l = []" using assms(1) by (simp add: strip_Nil_iff)
  have "stripped_lines (a @ NL # l @ rest) = map strip (split_nl (lstrip a @ NL # l @ rest))"
    by (simp add: stripped_lines_def lstrip_append_nonblank [OF assms(3)])
  also have "\<dots> = map strip (split_nl (lstrip a)) @ map strip (split_nl (l @ rest))"
    by (simp add: split_nl_append)
  also have "map strip (split_nl (l @ rest)) =
             [] # (if rest = [] then [] else map strip (split_nl (tl rest)))"
  proof (cases "rest = []")
    case True
    then show ?thesis using split_nl_single [OF assms(2)] sl by simp
  next
    case False
    with assms(4) obtain b where b: "rest = NL # b" by (cases rest) auto
    then show ?thesis
      using split_nl_append [of l b] split_nl_single [OF assms(2)] sl by simp
  qed
  finally show ?thesis .
qed

lemma concat_map_concat: "concat (map (\<lambda>r. concat (map f r)) rs) = concat (map f (concat rs))"
  by (induction rs) simp_all

lemma paragraph_chars:
  "concat (map (\<lambda>p. concat (content p)) (parse_paragraphs ls)) =
   concat (map strip (filter (\<lambda>l. \<not> blank l) ls))"
proof -
  have "concat (map (\<lambda>p. concat (content p)) (paragraphs_spec ls)) =
        concat (map (\<lambda>r. concat (map strip r)) (runs (\<lambda>l. \<not> blank l) ls))"
    by (simp add: paragraphs_spec_def comp_def)
  then show ?thesis
    by (simp add: parse_paragraphs_spec concat_map_concat concat_runs)
qed

text \<open>
  Claim C10. A line after the title that holds only whitespace is treated as an empty line:
  in any text, with the title somewhere before the line, putting one whitespace-only line
  in the place of another (the empty line is one of them) leaves the result of the parser
  as it was, record or error; the same holds for the paragraphs of any list of lines; and
  the characters of the paragraphs are those of the stripped non-blank lines, so that the
  line contributes none.
\<close>

theorem blank_lines_interchangeable:
  assumes "blank l" and "NL \<notin> set l" and "blank l'" and "NL \<notin> set l'"
    and "\<not> blank a" and "rest = [] \<or> hd rest = NL"
  shows "parse_txt_file (f\<lparr>contents := a @ NL # l @ rest\<rparr>) =
         parse_txt_file (f\<lparr>contents := a @ NL # l' @ rest\<rparr>) \<and>
         parse_paragraphs (pre @ l # post) = parse_paragraphs (pre @ l' # post) \<and>
         concat (map (\<lambda>p. concat (content p)) (parse_paragraphs (pre @ l # post))) =
           concat (map strip (filter (\<lambda>x. \<not> blank x) (pre @ post)))"
proof (intro conjI)
  have "stripped_lines (a @ NL # l @ rest) = stripped_lines (a @ NL # l' @ rest)"
    using stripped_lines_blank_line [OF assms(1,2,5,6)] stripped_lines_blank_line [OF assms(3,4,5,6)]
    by simp
  then show "parse_txt_file (f\<lparr>contents := a @ NL # l @ rest\<rparr>) =
         parse_txt_file (f\<lparr>contents := a @ NL # l' @ rest\<rparr>)"
    by (intro parse_txt_file_stripped_lines) simp_all
  have "runs (\<lambda>x. \<not> blank x) (pre @ l # post) = runs (\<lambda>x. \<not> blank x) (pre @ l' # post)"
    using runs_split [of "\<lambda>x. \<not> blank x" l pre post] runs_split [of "\<lambda>x. \<not> blank x" l' pre post]
      assms(1,3) by simp
  then show "parse_paragraphs (pre @ l # post) = parse_paragraphs (pre @ l' # post)"
    by (simp add: parse_paragraphs_spec paragraphs_spec_def)
  show "concat (map (\<lambda>p. concat (content p)) (parse_paragraphs (pre @ l # post))) =
           concat (map strip (filter (\<lambda>x. \<not> blank x) (pre @ post)))"
    using assms(1) by (simp add: paragraph_chars)
qed

theorem blank_lines_interchangeable_witness:
  "blank [] \<and> NL \<notin> set [] \<and> blank [SPACE, 9] \<and> NL \<notin> set [SPACE, 9] \<and> \<not> blank (asc ''T'') \<and>
   hd (NL # asc ''A'') = NL \<and>
   parse_txt_file \<lparr>stem = asc ''4'', contents = asc ''T'' @ NL # [] @ NL # asc ''A''\<rparr> =
     Inr \<lparr>id' = 4, title = asc ''T'', titleText = asc ''T'',
          paragraphs = [\<lparr>content = [asc ''A'']\<rparr>]\<rparr> \<and>
   parse_txt_file \<lparr>stem = asc ''4'', contents = asc ''T'' @ NL # [SPACE, 9] @ NL # asc ''A''\<rparr> =
     Inr \<lparr>id' = 4, title = asc ''T'', titleText = asc ''T'',
          paragraphs = [\<lparr>content = [asc ''A'']\<rparr>]\<rparr> \<and>
   parse_paragraphs ([asc ''B''] @ [SPACE, 9] # [asc ''A'']) =
     [\<lparr>content = [asc ''B'']\<rparr>, \<lparr>content = [asc ''A'']\<rparr>]"
proof -
  let ?f = "\<lparr>stem = asc ''4'', contents = []\<rparr>"
  have h: "blank []" "NL \<notin> set []" "blank [SPACE, 9]" "NL \<notin> set [SPACE, 9]"
    "\<not> blank (asc ''T'')" "NL # asc ''A'' = [] \<or> hd (NL # asc ''A'') = NL"
    by (simp_all add: blank_def isspace_def asc_def)
  note inst = blank_lines_interchangeable [OF h, of ?f "[asc ''B'']" "[asc ''A'']"]
  have ev: "parse_txt_file \<lparr>stem = asc ''4'', contents = asc ''T'' @ NL # [] @ NL # asc ''A''\<rparr> =
     Inr \<lparr>id' = 4, title = asc ''T'', titleText = asc ''T'',
          paragraphs = [\<lparr>content = [asc ''A'']\<rparr>]\<rparr>"
    by (simp add: parse_txt_file_def parse_chapter_title_def title_match_def
        parse_paragraphs_def text_eval Let_def
        py_int_def to_ascii_def to_ascii_char_def long_from_string_def c_isspace_def ascii_digit_def)
  have ev2: "parse_paragraphs ([asc ''B''] @ [] # [asc ''A'']) =
     [\<lparr>content = [asc ''B'']\<rparr>, \<lparr>content = [asc ''A'']\<rparr>]"
    by (simp add: parse_paragraphs_def text_eval)
  from inst ev have "parse_txt_file \<lparr>stem = asc ''4'', contents = asc ''T'' @ NL # [SPACE, 9] @ NL # asc ''A''\<rparr> =
     Inr \<lparr>id' = 4, title = asc ''T'', titleText = asc ''T'',
          paragraphs = [\<lparr>content = [asc ''A'']\<rparr>]\<rparr>"
    by simp
  moreover from inst ev2 have "parse_paragraphs ([asc ''B''] @ [SPACE, 9] # [asc ''A'']) =
     [\<lparr>content = [asc ''B'']\<rparr>, \<lparr>content = [asc ''A'']\<rparr>]"
    by simp
  ultimately show ?thesis using h ev by simp
qed

section \<open>Properties of the driver\<close>

lemma process_file_effect:
  "process_file p st =
     st\<lparr>out_dir := out_dir st ++ file_writes p, stdout := stdout st @ file_events p\<rparr>"
  by (cases "parse_txt_file p")
     (simp_all add: process_file_def file_writes_def file_events_def Let_def map_add_upd)

lemma process_files_effect:
  "process_files ps st =
     st\<lparr>out_dir := out_dir st ++ all_writes ps,
        stdout := stdout st @ concat (map file_events ps)\<rparr>"
  by (induction ps arbitrary: st) (simp_all add: process_file_effect)

lemma map_add_twice: "(m ++ w) ++ w = m ++ (w :: 'a \<rightharpoonup> 'b)"
  by (simp add: map_add_assoc [symmetric] fun_eq_iff map_add_def split: option.splits)

lemma main_crash:
  "sort_keys globbed = Inl e \<Longrightarrow>
   main globbed out = \<lparr>out_dir = out, stdout = [], uncaught = Some e\<rparr>"
  by (simp add: main_def)

lemma main_no_files:
  assumes "sort_keys globbed = Inr keys" and "map snd (sort_key fst (zip keys globbed)) = []"
  shows "main globbed out = \<lparr>out_dir = out, stdout = [NoFilesFound], uncaught = None\<rparr>"
  using assms by (simp add: main_def)

lemma main_files:
  assumes "sort_keys globbed = Inr keys" and "map snd (sort_key fst (zip keys globbed)) = ps"
    and "ps \<noteq> []"
  shows "main globbed out =
     \<lparr>out_dir = out ++ all_writes ps,
      stdout = Found (length ps) # concat (map file_events ps) @ [Done],
      uncaught = None\<rparr>"
  using assms by (auto simp: main_def process_files_effect Let_def)

text \<open>
  Claim C8. The conversion is deterministic and keeps no state: a second run over the same
  files, started from the output directory the first run left, leaves that directory, the
  printed lines and the outcome exactly as the first run did; the printed lines and the
  outcome do not depend on what the output directory held before; and the files written
  are a function of the input files alone.
\<close>

theorem main_twice:
  "main globbed (out_dir (main globbed out)) = main globbed out \<and>
   stdout (main globbed out) = stdout (main globbed out') \<and>
   uncaught (main globbed out) = uncaught (main globbed out') \<and>
   (\<exists>written. \<forall>before. out_dir (main globbed before) = before ++ written)"
proof (cases "sort_keys globbed")
  case (Inl e)
  note m = main_crash [OF Inl]
  have "\<exists>written. \<forall>before. out_dir (main globbed before) = before ++ written"
    by (rule exI [of _ "Map.empty"]) (simp add: m)
  then show ?thesis by (simp add: m)
next
  case (Inr keys)
  let ?ps = "map snd (sort_key fst (zip keys globbed))"
  show ?thesis
  proof (cases "?ps = []")
    case True
    note m = main_no_files [OF Inr True]
    have "\<exists>written. \<forall>before. out_dir (main globbed before) = before ++ written"
      by (rule exI [of _ "Map.empty"]) (simp add: m)
    then show ?thesis by (simp add: m)
  next
    case False
    note m = main_files [OF Inr refl False]
    have "\<exists>written. \<forall>before. out_dir (main globbed before) = before ++ written"
      by (rule exI [of _ "all_writes ?ps"]) (simp add: m)
    then show ?thesis by (simp add: m map_add_twice)
  qed
qed

theorem main_twice_witness:
  "main [\<lparr>stem = asc ''2'', contents = asc ''T''\<rparr>]
        (out_dir (main [\<lparr>stem = asc ''2'', contents = asc ''T''\<rparr>] Map.empty)) =
   main [\<lparr>stem = asc ''2'', contents = asc ''T''\<rparr>] Map.empty \<and>
   stdout (main [\<lparr>stem = asc ''2'', contents = asc ''T''\<rparr>] Map.empty) =
     [Found 1, Processing (asc ''2''), Created (asc ''chapter-002.json'') 2 (asc ''T''), Done] \<and>
   uncaught (main [\<lparr>stem = asc ''2'', contents = asc ''T''\<rparr>] Map.empty) = None \<and>
   out_dir (main [\<lparr>stem = asc ''2'', contents = asc ''T''\<rparr>] Map.empty) (asc ''chapter-002.json'') =
     Some (json_dump \<lparr>id' = 2, title = asc ''T'', titleText = asc ''T'', paragraphs = []\<rparr>)"
proof -
  let ?g = "[\<lparr>stem = asc ''2'', contents = asc ''T''\<rparr>]"
  have p: "parse_txt_file \<lparr>stem = asc ''2'', contents = asc ''T''\<rparr> =
      Inr \<lparr>id' = 2, title = asc ''T'', titleText = asc ''T'', paragraphs = []\<rparr>"
    by (simp add: parse_txt_file_def title_eval parse_paragraphs_def text_eval int_eval Let_def)
  have k: "sort_keys ?g = Inr [2]"
    by (simp add: sort_key_of_def digit_eval int_eval asc_def)
  have n: "output_name 2 = asc ''chapter-002.json''"
    by (simp add: output_name_def format_03d_def digits_of.simps asc_def numeral_2_eq_2)
  have m: "main ?g Map.empty =
     \<lparr>out_dir = [asc ''chapter-002.json'' \<mapsto>
          json_dump \<lparr>id' = 2, title = asc ''T'', titleText = asc ''T'', paragraphs = []\<rparr>],
      stdout = [Found 1, Processing (asc ''2''), Created (asc ''chapter-002.json'') 2 (asc ''T''), Done],
      uncaught = None\<rparr>"
  proof -
    have t: "take 20 (asc ''T'') = asc ''T''" by (simp add: asc_def)
    have z: "map snd (sort_key fst (zip [2::int] ?g)) = ?g" by simp
    have "?g \<noteq> []" by simp
    from main_files [OF k z this, of Map.empty] show ?thesis
      by (simp add: file_writes_def file_events_def p n t)
  qed
  from main_twice [of ?g Map.empty Map.empty] m show ?thesis
    by simp
qed

section \<open>The id of a record\<close>
























section \<open>Failures of single files\<close>

text \<open>
  The parse of a file fails exactly when the title gives the id 0 and \<^verbatim>\<open>int\<close> rejects the
  base name; the failure is a ValueError, and the index into the lines never fails.
\<close>

lemma parse_txt_file_fails_iff:
  "(\<exists>e. parse_txt_file f = Inl e) \<longleftrightarrow>
     fst (parse_chapter_title (first_line_of (contents f))) = 0 \<and> py_int (stem f) = None"
  by (auto simp: parse_txt_file_unfold split: prod.splits option.splits if_splits)

lemma parse_txt_file_error: "parse_txt_file f = Inl e \<Longrightarrow> e = ValueError (stem f)"
  by (auto simp: parse_txt_file_unfold split: prod.splits option.splits if_splits)

text \<open>Inside the loop a failed file prints its two lines and writes nothing.\<close>

lemma process_file_failed:
  "parse_txt_file p = Inl e \<Longrightarrow>
   process_file p st = st\<lparr>stdout := stdout st @ [Processing (stem p), Failed e]\<rparr>"
  by (simp add: process_file_effect file_writes_def file_events_def)

lemma all_writes_append: "all_writes (xs @ ys) = all_writes xs ++ all_writes ys"
  by (induction xs) simp_all

text \<open>The loop goes on after a failed file: the files after it are processed as they are
  without it, and the output directory is the one that the other files give.\<close>

lemma process_files_after_failed:
  assumes "parse_txt_file p = Inl e"
  shows "process_files (xs @ p # ys) st =
           process_files ys
             ((process_files xs st)\<lparr>stdout := stdout (process_files xs st) @
                                                 [Processing (stem p), Failed e]\<rparr>)"
    and "out_dir (process_files (xs @ p # ys) st) = out_dir (process_files (xs @ ys) st)"
proof -
  have app: "\<And>zs s. process_files (xs @ zs) s = process_files zs (process_files xs s)"
    by (induction xs) simp_all
  show "process_files (xs @ p # ys) st =
           process_files ys
             ((process_files xs st)\<lparr>stdout := stdout (process_files xs st) @
                                                 [Processing (stem p), Failed e]\<rparr>)"
    by (simp add: app process_file_failed [OF assms])
  have "file_writes p = Map.empty" using assms by (simp add: file_writes_def)
  then show "out_dir (process_files (xs @ p # ys) st) = out_dir (process_files (xs @ ys) st)"
    by (simp add: process_files_effect all_writes_append)
qed

text \<open>Once the sort has its keys the run ends without an exception.\<close>

lemma main_completes: "sort_keys globbed = Inr keys \<Longrightarrow> uncaught (main globbed out) = None"
  by (cases "map snd (sort_key fst (zip keys globbed)) = []")
     (simp_all add: main_no_files main_files)

text \<open>
  Claim C5. The parse of a file fails exactly when the title gives the id 0 and the base
  name is no integer, and in the loop such a failure is printed, writes nothing and lets
  the loop go on (the lemmas above). But no failure of one file is to end the whole run,
  and one does: the key of the sort calls \<^verbatim>\<open>int\<close> on every base name that \<^verbatim>\<open>isdigit\<close>
  accepts, outside the \<^verbatim>\<open>try\<close>. The base name U+00B2 (superscript two) is such a name and
  no integer. Its file, with a first line without marker, is one whose parse fails; with
  it in the directory the run ends in the ValueError before anything is printed or written,
  and the file "1.txt" beside it, whose parse succeeds, is never converted.
\<close>

theorem superscript_name_ends_run:
  "isdigit [178] \<and> py_int [178] = None \<and>
   fst (parse_chapter_title (first_line_of (asc ''Some preface''))) = 0 \<and>
   parse_txt_file \<lparr>stem = [178], contents = asc ''Some preface''\<rparr> = Inl (ValueError [178]) \<and>
   parse_txt_file \<lparr>stem = asc ''1'', contents = [DI, YI, HUI, SPACE, 30002]\<rparr> =
     Inr \<lparr>id' = 1, title = [DI, YI, HUI, SPACE, 30002], titleText = [30002], paragraphs = []\<rparr> \<and>
   main [\<lparr>stem = [178], contents = asc ''Some preface''\<rparr>,
         \<lparr>stem = asc ''1'', contents = [DI, YI, HUI, SPACE, 30002]\<rparr>] Map.empty =
     \<lparr>out_dir = Map.empty, stdout = [], uncaught = Some (ValueError [178])\<rparr>"
proof -
  have d: "isdigit [178]" by (simp add: digit_eval)
  have i: "py_int [178] = None" by (simp add: int_eval unicode_decimal_def nd_zeros_def isspace_def)
  have t: "fst (parse_chapter_title (first_line_of (asc ''Some preface''))) = 0"
    by (simp add: first_line_of_def file_lines_def title_eval text_eval)
  have p1: "parse_txt_file \<lparr>stem = [178], contents = asc ''Some preface''\<rparr> = Inl (ValueError [178])"
  proof -
    let ?f = "\<lparr>stem = [178], contents = asc ''Some preface''\<rparr>"
    from parse_txt_file_fails_iff [of ?f] i t obtain e where e: "parse_txt_file ?f = Inl e"
      by auto
    from parse_txt_file_error [OF e] e show ?thesis by simp
  qed
  have p2: "parse_txt_file \<lparr>stem = asc ''1'', contents = [DI, YI, HUI, SPACE, 30002]\<rparr> =
     Inr \<lparr>id' = 1, title = [DI, YI, HUI, SPACE, 30002], titleText = [30002], paragraphs = []\<rparr>"
    by (simp add: parse_txt_file_def title_eval parse_paragraphs_def text_eval Let_def)
  have k: "sort_keys [\<lparr>stem = [178], contents = asc ''Some preface''\<rparr>,
         \<lparr>stem = asc ''1'', contents = [DI, YI, HUI, SPACE, 30002]\<rparr>] = Inl (ValueError [178])"
    using d i by (simp add: sort_key_of_def)
  from d i t p1 p2 main_crash [OF k, of Map.empty] show ?thesis
    by simp
qed

end
